theory Spec2Isabelle
  imports Complex_Main
begin

section \<open>Aether: lexer, parser and interpreter of \<^verbatim>\<open>aether.py\<close>\<close>

text \<open>
  The development follows the three stages of the source: \<^verbatim>\<open>lex\<close> (a scan with one
  ordered regular alternation), the recursive-descent \<^verbatim>\<open>Parser\<close>, and the tree-walking
  \<^verbatim>\<open>Interpreter.visit\<close> over the dictionary \<^verbatim>\<open>globals\<close>. Python exceptions are values
  of the type \<open>error\<close>; the interpreter's dictionary is passed in and returned.
\<close>

subsection \<open>Tokens and errors\<close>

text \<open>The group names of \<^verbatim>\<open>TOKEN_TYPES\<close>, in the order of the table.\<close>

datatype kind =
  NUMBER | STRING | ASSIGN | EQUALS | PLUS | MINUS | MUL | DIV
  | LPAREN | RPAREN | IDENT | NEWLINE | SKIP | ERROR

datatype token = Token (token_type: kind) (token_value: string)

text \<open>
  The exceptions the program can raise, by the place that raises them:
  \<^item> \<open>IllegalCharacter v\<close>: \<^verbatim>\<open>SyntaxError(f"Illegal character: {value}")\<close> in \<^verbatim>\<open>lex\<close>;
  \<^item> \<open>ExpectedToken e g\<close>: \<^verbatim>\<open>SyntaxError(f"Expected {expected_type}, got {token.type}")\<close>
    in \<^verbatim>\<open>consume\<close>;
  \<^item> \<open>UndefinedVariable n\<close> and \<open>AlreadyDeclared n\<close>: the two \<^verbatim>\<open>NameError\<close>s of \<^verbatim>\<open>visit\<close>;
  \<^item> \<open>AttributeError\<close>: reading \<^verbatim>\<open>.type\<close> of \<^verbatim>\<open>None\<close>;
  \<^item> \<open>TypeError\<close>: an arithmetic operator applied to \<^verbatim>\<open>None\<close>;
  \<^item> \<open>ZeroDivisionError\<close>: Python's float division by zero.
\<close>

datatype error =
  IllegalCharacter string
  | ExpectedToken kind kind
  | UndefinedVariable string
  | AlreadyDeclared string
  | AttributeError
  | TypeError
  | ZeroDivisionError

subsection \<open>The regular expressions of \<open>TOKEN_TYPES\<close>\<close>

text \<open>
  A pattern is matched at the start of the remaining text and answers the matched
  lexeme and the text after it, or \<open>None\<close>. Strings are lists of 8-bit characters, in
  which \<^verbatim>\<open>\d\<close> is exactly the ten ASCII digits.
\<close>

type_synonym pattern = "string \<Rightarrow> (string \<times> string) option"

definition is_digit :: "char \<Rightarrow> bool" where
  "is_digit c = (c \<in> set ''0123456789'')"

definition is_ident_start :: "char \<Rightarrow> bool" where
  "is_ident_start c = (c \<in> set ''abcdefghijklmnopqrstuvwxyzABCDEFGHIJKLMNOPQRSTUVWXYZ_'')"

definition is_ident_char :: "char \<Rightarrow> bool" where
  "is_ident_char c = (is_ident_start c \<or> is_digit c)"

definition is_blank :: "char \<Rightarrow> bool" where
  "is_blank c = (c = CHR '' '' \<or> c = CHR 0x09)"

definition quote :: char where
  "quote = CHR 0x22"

definition newline :: char where
  "newline = CHR 0x0A"

text \<open>\<^verbatim>\<open>\d+(\.\d+)?\<close>: the digits, then the fraction only when a digit follows the dot.\<close>

definition number_pat :: pattern where
  "number_pat s =
     (let ds = takeWhile is_digit s; r = dropWhile is_digit s in
      if ds = [] then None
      else (case r of
              [] \<Rightarrow> Some (ds, r)
            | d # r2 \<Rightarrow>
                if d = CHR ''.'' \<and> takeWhile is_digit r2 \<noteq> []
                then Some (ds @ d # takeWhile is_digit r2, dropWhile is_digit r2)
                else Some (ds, r)))"

text \<open>\<^verbatim>\<open>"[^"]*"\<close>: a quote, the characters up to the next quote, and that quote.\<close>

definition string_pat :: pattern where
  "string_pat s =
     (case s of
        [] \<Rightarrow> None
      | q # r \<Rightarrow>
          if q = quote
          then (case dropWhile (\<lambda>c. c \<noteq> quote) r of
                  [] \<Rightarrow> None
                | q' # rest \<Rightarrow> Some (q # takeWhile (\<lambda>c. c \<noteq> quote) r @ [q'], rest))
          else None)"

text \<open>A literal text, for \<^verbatim>\<open>:=\<close>, \<^verbatim>\<open>=\<close>, the operators, the parentheses and \<^verbatim>\<open>\n\<close>.\<close>

definition lit :: "string \<Rightarrow> pattern" where
  "lit w s = (if take (length w) s = w then Some (w, drop (length w) s) else None)"

text \<open>\<^verbatim>\<open>[a-zA-Z_][a-zA-Z0-9_]*\<close>\<close>

definition ident_pat :: pattern where
  "ident_pat s =
     (case s of
        [] \<Rightarrow> None
      | c # r \<Rightarrow>
          if is_ident_start c
          then Some (c # takeWhile is_ident_char r, dropWhile is_ident_char r)
          else None)"

text \<open>\<^verbatim>\<open>[ \t]+\<close>\<close>

definition skip_pat :: pattern where
  "skip_pat s =
     (if takeWhile is_blank s = [] then None
      else Some (takeWhile is_blank s, dropWhile is_blank s))"

text \<open>\<^verbatim>\<open>.\<close>: any one character but a newline.\<close>

definition any_pat :: pattern where
  "any_pat s =
     (case s of
        [] \<Rightarrow> None
      | c # r \<Rightarrow> if c = newline then None else Some ([c], r))"

definition TOKEN_TYPES :: "(kind \<times> pattern) list" where
  "TOKEN_TYPES =
     [(NUMBER, number_pat),
      (STRING, string_pat),
      (ASSIGN, lit '':=''),
      (EQUALS, lit ''=''),
      (PLUS, lit ''+''),
      (MINUS, lit ''-''),
      (MUL, lit ''*''),
      (DIV, lit ''/''),
      (LPAREN, lit ''(''),
      (RPAREN, lit '')''),
      (IDENT, ident_pat),
      (NEWLINE, lit [newline]),
      (SKIP, skip_pat),
      (ERROR, any_pat)]"

text \<open>
  The alternation \<^verbatim>\<open>'|'.join(...)\<close>: the first alternative of the table that matches
  at the position wins, and \<^verbatim>\<open>match.lastgroup\<close> is its name.
\<close>

fun first_match :: "(kind \<times> pattern) list \<Rightarrow> string \<Rightarrow> (kind \<times> string \<times> string) option" where
  "first_match [] s = None"
| "first_match ((k, p) # ps) s =
     (case p s of
        Some (v, r) \<Rightarrow> Some (k, v, r)
      | None \<Rightarrow> first_match ps s)"

definition regex :: "string \<Rightarrow> (kind \<times> string \<times> string) option" where
  "regex s = first_match TOKEN_TYPES s"

text \<open>Every alternative of the table consumes at least one character of the text.\<close>

lemma number_pat_consumes:
  assumes "number_pat s = Some (v, r)"
  shows "s = v @ r \<and> v \<noteq> []"
proof (cases "dropWhile is_digit s")
  case Nil
  then have "s = takeWhile is_digit s"
    by (metis append_Nil2 takeWhile_dropWhile_id)
  with assms Nil show ?thesis
    by (auto simp: number_pat_def Let_def split: if_splits)
next
  case (Cons d r2)
  then have s: "s = takeWhile is_digit s @ d # r2"
    by (metis takeWhile_dropWhile_id)
  have r2: "r2 = takeWhile is_digit r2 @ dropWhile is_digit r2"
    by simp
  show ?thesis
  proof (cases "d = CHR ''.'' \<and> takeWhile is_digit r2 \<noteq> []")
    case True
    with assms Cons have "v = takeWhile is_digit s @ d # takeWhile is_digit r2"
      and "r = dropWhile is_digit r2"
      by (auto simp: number_pat_def Let_def split: if_splits)
    with s r2 show ?thesis by (metis append.assoc append_Cons snoc_eq_iff_butlast)
  next
    case False
    with assms Cons have "v = takeWhile is_digit s" and "r = d # r2" and "v \<noteq> []"
      by (auto simp: number_pat_def Let_def split: if_splits)
    with s show ?thesis by simp
  qed
qed

lemma string_pat_consumes:
  assumes "string_pat s = Some (v, r)"
  shows "s = v @ r \<and> v \<noteq> []"
proof -
  from assms obtain q t q' where s: "s = q # t" and q: "q = quote"
    and d: "dropWhile (\<lambda>c. c \<noteq> quote) t = q' # r"
    and v: "v = q # takeWhile (\<lambda>c. c \<noteq> quote) t @ [q']"
    by (auto simp: string_pat_def split: list.splits if_splits)
  have "t = takeWhile (\<lambda>c. c \<noteq> quote) t @ q' # r"
    using d by (metis takeWhile_dropWhile_id)
  with s v show ?thesis by simp
qed

lemma lit_consumes: "lit w s = Some (v, r) \<Longrightarrow> w \<noteq> [] \<Longrightarrow> s = v @ r \<and> v \<noteq> []"
  by (auto simp: lit_def split: if_splits) (metis append_take_drop_id)

lemma ident_pat_consumes: "ident_pat s = Some (v, r) \<Longrightarrow> s = v @ r \<and> v \<noteq> []"
  by (auto simp: ident_pat_def split: list.splits if_splits)

lemma skip_pat_consumes: "skip_pat s = Some (v, r) \<Longrightarrow> s = v @ r \<and> v \<noteq> []"
  by (auto simp: skip_pat_def split: if_splits)

lemma any_pat_consumes: "any_pat s = Some (v, r) \<Longrightarrow> s = v @ r \<and> v \<noteq> []"
  by (auto simp: any_pat_def split: list.splits if_splits)

lemma regex_consumes:
  assumes "regex s = Some (k, v, r)"
  shows "s = v @ r \<and> v \<noteq> []"
  using assms
  by (auto simp: regex_def TOKEN_TYPES_def split: option.splits
      dest: number_pat_consumes string_pat_consumes lit_consumes ident_pat_consumes
        skip_pat_consumes any_pat_consumes)

lemma regex_shorter: "regex s = Some (k, v, r) \<Longrightarrow> length r < length s"
proof -
  assume "regex s = Some (k, v, r)"
  then have "s = v @ r" and "v \<noteq> []"
    by (simp_all add: regex_consumes)
  then show ?thesis by simp
qed

subsection \<open>\<open>lex\<close>\<close>

text \<open>
  \<^verbatim>\<open>re.finditer(regex, code)\<close>: the matches from left to right, each starting where the
  one before ended; a position where nothing matches is stepped over.
\<close>

function finditer :: "string \<Rightarrow> (kind \<times> string) list" where
  "finditer [] = []"
| "finditer (c # cs) =
     (case regex (c # cs) of
        None \<Rightarrow> finditer cs
      | Some (k, v, r) \<Rightarrow> (k, v) # finditer r)"
  by pat_completeness auto
termination
  by (relation "measure length") (auto dest: regex_shorter)

text \<open>
  The loop of \<^verbatim>\<open>lex\<close> over the matches, with the list \<^verbatim>\<open>tokens\<close> built so far: a
  \<^verbatim>\<open>SKIP\<close> is passed over, an \<^verbatim>\<open>ERROR\<close> raises, every other match (a \<^verbatim>\<open>NEWLINE\<close>
  too) is appended.
\<close>

fun lex_loop :: "(kind \<times> string) list \<Rightarrow> token list \<Rightarrow> error + token list" where
  "lex_loop [] tokens = Inr tokens"
| "lex_loop ((kind, v) # ms) tokens =
     (if kind = SKIP then lex_loop ms tokens
      else if kind = ERROR then Inl (IllegalCharacter v)
      else lex_loop ms (tokens @ [Token kind v]))"

definition lex :: "string \<Rightarrow> error + token list" where
  "lex code = lex_loop (finditer code) []"

subsection \<open>The syntax tree and the host's floats\<close>

text \<open>
  The classes \<^verbatim>\<open>BinOp\<close>, \<^verbatim>\<open>Num\<close>, \<^verbatim>\<open>Var\<close> and \<^verbatim>\<open>Assign\<close>; \<open>NoneNode\<close> is Python's
  \<^verbatim>\<open>None\<close>, which \<^verbatim>\<open>parse_factor\<close> returns when it falls off its last \<^verbatim>\<open>if\<close>. The
  operator of a \<^verbatim>\<open>BinOp\<close> is the type of the consumed token.
\<close>

datatype 'f node =
  BinOp "'f node" kind "'f node"
  | Num 'f
  | Var string
  | Assign string "'f node" bool
  | NoneNode

text \<open>What \<^verbatim>\<open>visit\<close> returns and the dictionary holds: a float or \<^verbatim>\<open>None\<close>.\<close>

datatype 'f pyval = Float 'f | PyNone

type_synonym 'f env = "string \<rightharpoonup> 'f pyval"

text \<open>
  The float type belongs to the host, not to the program: its conversion from a
  literal and its four operations are parameters of the model, together with the test
  \<^verbatim>\<open>x == 0.0\<close> that decides when Python's \<^verbatim>\<open>/\<close> raises.
\<close>

record 'f float_ops =
  float_of :: "string \<Rightarrow> 'f"
  float_add :: "'f \<Rightarrow> 'f \<Rightarrow> 'f"
  float_sub :: "'f \<Rightarrow> 'f \<Rightarrow> 'f"
  float_mul :: "'f \<Rightarrow> 'f \<Rightarrow> 'f"
  float_div :: "'f \<Rightarrow> 'f \<Rightarrow> 'f"
  float_is_zero :: "'f \<Rightarrow> bool"

subsection \<open>\<open>Parser\<close>\<close>

text \<open>
  The parser's state is \<^verbatim>\<open>self.tokens\<close> and \<^verbatim>\<open>self.pos\<close>; \<^verbatim>\<open>pos\<close> only moves forward
  by one, in \<^verbatim>\<open>consume\<close>, so the state is carried as the unread tokens
  \<^verbatim>\<open>tokens[pos:]\<close>. \<^verbatim>\<open>consume\<close> at the end of the tokens returns \<^verbatim>\<open>None\<close> and raises
  nothing, whatever type was expected.
\<close>

definition consume :: "token list \<Rightarrow> kind option \<Rightarrow> error + (token option \<times> token list)" where
  "consume ts expected_type =
     (case ts of
        [] \<Rightarrow> Inr (None, ts)
      | token # rest \<Rightarrow>
          if expected_type \<noteq> None \<and> token_type token \<noteq> the expected_type
          then Inl (ExpectedToken (the expected_type) (token_type token))
          else Inr (Some token, rest))"

definition peek :: "token list \<Rightarrow> token option" where
  "peek ts = (case ts of [] \<Rightarrow> None | token # rest \<Rightarrow> Some token)"

lemma consume_shorter: "consume ts e = Inr (Some t, r) \<Longrightarrow> length r < length ts"
  by (auto simp: consume_def split: list.splits if_splits)

lemma consume_not_longer: "consume ts e = Inr (x, r) \<Longrightarrow> length r \<le> length ts"
  by (auto simp: consume_def split: list.splits if_splits)

text \<open>
  \<^verbatim>\<open>parse_expression\<close>, \<^verbatim>\<open>parse_term\<close> and \<^verbatim>\<open>parse_factor\<close>, with the two \<^verbatim>\<open>while\<close>
  loops as \<open>expression_loop\<close> and \<open>term_loop\<close> on the node built so far. In
  \<^verbatim>\<open>parse_factor\<close> the token returned by \<^verbatim>\<open>consume()\<close> is \<^verbatim>\<open>None\<close> at the end of the tokens
  and \<^verbatim>\<open>token.type\<close> then raises; a token of any other type than the three tested
  falls off the end of the method, which returns \<^verbatim>\<open>None\<close>.
\<close>

function parse_expression :: "'f float_ops \<Rightarrow> token list \<Rightarrow> error + ('f node \<times> token list)"
  and expression_loop :: "'f float_ops \<Rightarrow> 'f node \<Rightarrow> token list \<Rightarrow> error + ('f node \<times> token list)"
  and parse_term :: "'f float_ops \<Rightarrow> token list \<Rightarrow> error + ('f node \<times> token list)"
  and term_loop :: "'f float_ops \<Rightarrow> 'f node \<Rightarrow> token list \<Rightarrow> error + ('f node \<times> token list)"
  and parse_factor :: "'f float_ops \<Rightarrow> token list \<Rightarrow> error + ('f node \<times> token list)"
where
  "parse_expression F ts =
     (case parse_term F ts of
        Inl e \<Rightarrow> Inl e
      | Inr (node, ts1) \<Rightarrow> expression_loop F node ts1)"
| "expression_loop F node ts =
     (case peek ts of
        None \<Rightarrow> Inr (node, ts)
      | Some t \<Rightarrow>
          if token_type t \<in> {PLUS, MINUS}
          then (case consume ts None of
                  Inl e \<Rightarrow> Inl e
                | Inr (None, ts1) \<Rightarrow> Inl AttributeError
                | Inr (Some tok, ts1) \<Rightarrow>
                    (case parse_term F ts1 of
                       Inl e \<Rightarrow> Inl e
                     | Inr (rhs, ts2) \<Rightarrow>
                         expression_loop F (BinOp node (token_type tok) rhs) ts2))
          else Inr (node, ts))"
| "parse_term F ts =
     (case parse_factor F ts of
        Inl e \<Rightarrow> Inl e
      | Inr (node, ts1) \<Rightarrow> term_loop F node ts1)"
| "term_loop F node ts =
     (case peek ts of
        None \<Rightarrow> Inr (node, ts)
      | Some t \<Rightarrow>
          if token_type t \<in> {MUL, DIV}
          then (case consume ts None of
                  Inl e \<Rightarrow> Inl e
                | Inr (None, ts1) \<Rightarrow> Inl AttributeError
                | Inr (Some tok, ts1) \<Rightarrow>
                    (case parse_factor F ts1 of
                       Inl e \<Rightarrow> Inl e
                     | Inr (rhs, ts2) \<Rightarrow>
                         term_loop F (BinOp node (token_type tok) rhs) ts2))
          else Inr (node, ts))"
| "parse_factor F ts =
     (case consume ts None of
        Inl e \<Rightarrow> Inl e
      | Inr (None, ts1) \<Rightarrow> Inl AttributeError
      | Inr (Some token, ts1) \<Rightarrow>
          if token_type token = NUMBER then Inr (Num (float_of F (token_value token)), ts1)
          else if token_type token = IDENT then Inr (Var (token_value token), ts1)
          else if token_type token = LPAREN
          then (case parse_expression F ts1 of
                  Inl e \<Rightarrow> Inl e
                | Inr (node, ts2) \<Rightarrow>
                    (case consume ts2 (Some RPAREN) of
                       Inl e \<Rightarrow> Inl e
                     | Inr (closing, ts3) \<Rightarrow> Inr (node, ts3)))
          else Inr (NoneNode, ts1))"
  by pat_completeness auto


lemma peek_consume: "peek ts = Some t \<Longrightarrow> consume ts None = Inr (Some t, tl ts) \<and> ts \<noteq> []"
  by (auto simp: peek_def consume_def split: list.splits)

lemma parse_not_longer_dom:
  "parse_expression_expression_loop_parse_term_term_loop_parse_factor_dom (Inl (Inl (F, ts))) \<Longrightarrow>
     parse_expression F ts = Inr (n, r) \<Longrightarrow> length r \<le> length ts"
  "parse_expression_expression_loop_parse_term_term_loop_parse_factor_dom (Inl (Inr (F, node, ts))) \<Longrightarrow>
     expression_loop F node ts = Inr (n, r) \<Longrightarrow> length r \<le> length ts"
  "parse_expression_expression_loop_parse_term_term_loop_parse_factor_dom (Inr (Inl (F, ts))) \<Longrightarrow>
     parse_term F ts = Inr (n, r) \<Longrightarrow> length r \<le> length ts"
  "parse_expression_expression_loop_parse_term_term_loop_parse_factor_dom (Inr (Inr (Inl (F, node, ts)))) \<Longrightarrow>
     term_loop F node ts = Inr (n, r) \<Longrightarrow> length r \<le> length ts"
  "parse_expression_expression_loop_parse_term_term_loop_parse_factor_dom (Inr (Inr (Inr (F, ts)))) \<Longrightarrow>
     parse_factor F ts = Inr (n, r) \<Longrightarrow> length r \<le> length ts"
proof (induct F ts and F node ts and F ts and F node ts and F ts
    arbitrary: n r and n r and n r and n r and n r
    rule: parse_expression_expression_loop_parse_term_term_loop_parse_factor.pinduct)
  case (1 F ts)
  from 1(4) 1(1) obtain m ts1 where a: "parse_term F ts = Inr (m, ts1)"
    and b: "expression_loop F m ts1 = Inr (n, r)"
    by (auto simp: parse_expression.psimps split: sum.splits)
  from 1(2)[OF a] 1(3)[OF a refl b] show ?case by simp
next
  case (2 F node ts)
  show ?case
  proof (cases "peek ts")
    case None
    with 2(4) 2(1) show ?thesis by (simp add: expression_loop.psimps)
  next
    case (Some t)
    note pc = peek_consume[OF Some]
    show ?thesis
    proof (cases "token_type t \<in> {PLUS, MINUS}")
      case False
      with 2(4) 2(1) Some show ?thesis by (simp add: expression_loop.psimps)
    next
      case True
      from 2(4) 2(1) Some True pc obtain rhs ts2 where a: "parse_term F (tl ts) = Inr (rhs, ts2)"
        and b: "expression_loop F (BinOp node (token_type t) rhs) ts2 = Inr (n, r)"
        by (auto simp: expression_loop.psimps split: sum.splits)
      from pc have c: "consume ts None = Inr (Some t, tl ts)" by simp
      from 2(2)[OF Some True c refl refl a] have "length ts2 \<le> length (tl ts)" .
      moreover from 2(3)[OF Some True c refl refl a refl b] have "length r \<le> length ts2" .
      ultimately show ?thesis by simp
    qed
  qed
next
  case (3 F ts)
  from 3(4) 3(1) obtain m ts1 where a: "parse_factor F ts = Inr (m, ts1)"
    and b: "term_loop F m ts1 = Inr (n, r)"
    by (auto simp: parse_term.psimps split: sum.splits)
  from 3(2)[OF a] 3(3)[OF a refl b] show ?case by simp
next
  case (4 F node ts)
  show ?case
  proof (cases "peek ts")
    case None
    with 4(4) 4(1) show ?thesis by (simp add: term_loop.psimps)
  next
    case (Some t)
    note pc = peek_consume[OF Some]
    show ?thesis
    proof (cases "token_type t \<in> {MUL, DIV}")
      case False
      with 4(4) 4(1) Some show ?thesis by (simp add: term_loop.psimps)
    next
      case True
      from 4(4) 4(1) Some True pc obtain rhs ts2 where a: "parse_factor F (tl ts) = Inr (rhs, ts2)"
        and b: "term_loop F (BinOp node (token_type t) rhs) ts2 = Inr (n, r)"
        by (auto simp: term_loop.psimps split: sum.splits)
      from pc have c: "consume ts None = Inr (Some t, tl ts)" by simp
      from 4(2)[OF Some True c refl refl a] have "length ts2 \<le> length (tl ts)" .
      moreover from 4(3)[OF Some True c refl refl a refl b] have "length r \<le> length ts2" .
      ultimately show ?thesis by simp
    qed
  qed
next
  case (5 F ts)
  show ?case
  proof (cases ts)
    case Nil
    with 5(3) 5(1) show ?thesis by (simp add: parse_factor.psimps consume_def)
  next
    case (Cons t rest)
    then have c: "consume ts None = Inr (Some t, rest)" by (simp add: consume_def)
    show ?thesis
    proof (cases "token_type t = LPAREN")
      case False
      with 5(3) 5(1) c Cons show ?thesis
        by (auto simp: parse_factor.psimps split: if_splits)
    next
      case True
      from 5(3) 5(1) c True obtain m ts2 x where a: "parse_expression F rest = Inr (m, ts2)"
        and b: "consume ts2 (Some RPAREN) = Inr (x, r)"
        by (auto simp: parse_factor.psimps split: sum.splits)
      have "length ts2 \<le> length rest"
        by (rule 5(2)[OF c refl refl _ _ True a]) (simp_all add: True)
      moreover from b have "length r \<le> length ts2" by (rule consume_not_longer)
      ultimately show ?thesis using Cons by simp
    qed
  qed
qed

termination parse_expression
proof (relation "measure (\<lambda>x. case x of
      Inl (Inl (F, ts)) \<Rightarrow> 3 * length ts + 2
    | Inl (Inr (F, n, ts)) \<Rightarrow> 3 * length ts
    | Inr (Inl (F, ts)) \<Rightarrow> 3 * length ts + 1
    | Inr (Inr (Inl (F, n, ts))) \<Rightarrow> 3 * length ts
    | Inr (Inr (Inr (F, ts))) \<Rightarrow> 3 * length ts)", goal_cases)
  case 1
  show ?case by simp
next
  case (2 F ts)
  show ?case by simp
next
  case (3 F ts b x y)
  then show ?case using parse_not_longer_dom(3)[of F ts x y] by auto
next
  case (4 F node ts x2 b x y x2a)
  then show ?case using consume_shorter[of ts None x2a y] by auto
next
  case (5 F node ts x2 b x y x2a ba xa ya)
  then show ?case
    using consume_shorter[of ts None x2a y] parse_not_longer_dom(3)[of F y xa ya] by auto
next
  case (6 F ts)
  show ?case by simp
next
  case (7 F ts b x y)
  then show ?case using parse_not_longer_dom(5)[of F ts x y] by auto
next
  case (8 F node ts x2 b x y x2a)
  then show ?case using consume_shorter[of ts None x2a y] by auto
next
  case (9 F node ts x2 b x y x2a ba xa ya)
  then show ?case
    using consume_shorter[of ts None x2a y] parse_not_longer_dom(5)[of F y xa ya] by auto
next
  case (10 F ts b x y x2)
  then show ?case using consume_shorter[of ts None x2 y] by auto
qed

declare parse_expression.simps [simp del] expression_loop.simps [simp del]
  parse_term.simps [simp del] term_loop.simps [simp del] parse_factor.simps [simp del]

text \<open>
  \<^verbatim>\<open>parse_statement\<close>: the identifier is consumed before the next token is looked at,
  and the last line parses an expression from wherever the position then is.
\<close>

definition parse_statement :: "'f float_ops \<Rightarrow> token list \<Rightarrow> error + ('f node \<times> token list)" where
  "parse_statement F ts =
     (case peek ts of
        None \<Rightarrow> Inl AttributeError
      | Some token \<Rightarrow>
          if token_type token = IDENT
          then (case consume ts None of
                  Inl e \<Rightarrow> Inl e
                | Inr (None, ts1) \<Rightarrow> Inl AttributeError
                | Inr (Some tok, ts1) \<Rightarrow>
                    (let name = token_value tok; next_t = peek ts1 in
                     if next_t \<noteq> None \<and> token_type (the next_t) = ASSIGN
                     then (case consume ts1 None of
                             Inl e \<Rightarrow> Inl e
                           | Inr (sign, ts2) \<Rightarrow>
                               (case parse_expression F ts2 of
                                  Inl e \<Rightarrow> Inl e
                                | Inr (expr, ts3) \<Rightarrow> Inr (Assign name expr True, ts3)))
                     else if next_t \<noteq> None \<and> token_type (the next_t) = EQUALS
                     then (case consume ts1 None of
                             Inl e \<Rightarrow> Inl e
                           | Inr (sign, ts2) \<Rightarrow>
                               (case parse_expression F ts2 of
                                  Inl e \<Rightarrow> Inl e
                                | Inr (expr, ts3) \<Rightarrow> Inr (Assign name expr False, ts3)))
                     else parse_expression F ts1))
          else parse_expression F ts)"

text \<open>The parser's equations on an empty and on a non-empty list of unread tokens.\<close>

lemma parse_factor_Nil: "parse_factor F [] = Inl AttributeError"
  by (simp add: parse_factor.simps consume_def)

lemma parse_factor_Cons:
  "parse_factor F (t # ts) =
     (if token_type t = NUMBER then Inr (Num (float_of F (token_value t)), ts)
      else if token_type t = IDENT then Inr (Var (token_value t), ts)
      else if token_type t = LPAREN
      then (case parse_expression F ts of
              Inl e \<Rightarrow> Inl e
            | Inr (node, ts2) \<Rightarrow>
                (case consume ts2 (Some RPAREN) of
                   Inl e \<Rightarrow> Inl e
                 | Inr (closing, ts3) \<Rightarrow> Inr (node, ts3)))
      else Inr (NoneNode, ts))"
  by (simp add: parse_factor.simps[of F "t # ts"] consume_def)

lemma expression_loop_Nil: "expression_loop F node [] = Inr (node, [])"
  by (simp add: expression_loop.simps peek_def)

lemma expression_loop_Cons:
  "expression_loop F node (t # ts) =
     (if token_type t \<in> {PLUS, MINUS}
      then (case parse_term F ts of
              Inl e \<Rightarrow> Inl e
            | Inr (rhs, ts2) \<Rightarrow> expression_loop F (BinOp node (token_type t) rhs) ts2)
      else Inr (node, t # ts))"
  by (simp add: expression_loop.simps[of F node "t # ts"] peek_def consume_def)

lemma term_loop_Nil: "term_loop F node [] = Inr (node, [])"
  by (simp add: term_loop.simps peek_def)

lemma term_loop_Cons:
  "term_loop F node (t # ts) =
     (if token_type t \<in> {MUL, DIV}
      then (case parse_factor F ts of
              Inl e \<Rightarrow> Inl e
            | Inr (rhs, ts2) \<Rightarrow> term_loop F (BinOp node (token_type t) rhs) ts2)
      else Inr (node, t # ts))"
  by (simp add: term_loop.simps[of F node "t # ts"] peek_def consume_def)

subsection \<open>\<open>Interpreter\<close>\<close>

text \<open>
  Python's \<^verbatim>\<open>+\<close>, \<^verbatim>\<open>-\<close> and \<^verbatim>\<open>*\<close> on two floats never raise; with \<^verbatim>\<open>None\<close> on either
  side they raise \<^verbatim>\<open>TypeError\<close>. \<^verbatim>\<open>/\<close> on two floats raises \<^verbatim>\<open>ZeroDivisionError\<close> when
  the divisor equals zero.
\<close>

fun arith :: "('f \<Rightarrow> 'f \<Rightarrow> 'f) \<Rightarrow> 'f pyval \<Rightarrow> 'f pyval \<Rightarrow> error + 'f pyval" where
  "arith f (Float a) (Float b) = Inr (Float (f a b))"
| "arith f a b = Inl TypeError"

fun truediv :: "'f float_ops \<Rightarrow> 'f pyval \<Rightarrow> 'f pyval \<Rightarrow> error + 'f pyval" where
  "truediv F (Float a) (Float b) =
     (if float_is_zero F b then Inl ZeroDivisionError else Inr (Float (float_div F a b)))"
| "truediv F a b = Inl TypeError"

text \<open>
  \<^verbatim>\<open>visit\<close> with the dictionary \<^verbatim>\<open>self.globals\<close> passed in and returned. A node that is
  no instance of the four classes, and a \<^verbatim>\<open>BinOp\<close> whose operator is none of the four,
  reach the end of the method: the result is \<^verbatim>\<open>None\<close>.
\<close>

fun visit :: "'f float_ops \<Rightarrow> 'f node \<Rightarrow> 'f env \<Rightarrow> (error + 'f pyval) \<times> 'f env" where
  "visit F (Num v) globals = (Inr (Float v), globals)"
| "visit F (Var name) globals =
     (if name \<notin> dom globals then (Inl (UndefinedVariable name), globals)
      else (Inr (the (globals name)), globals))"
| "visit F (BinOp l op r) globals =
     (case visit F l globals of
        (Inl e, g1) \<Rightarrow> (Inl e, g1)
      | (Inr left, g1) \<Rightarrow>
          (case visit F r g1 of
             (Inl e, g2) \<Rightarrow> (Inl e, g2)
           | (Inr right, g2) \<Rightarrow>
               if op = PLUS then (arith (float_add F) left right, g2)
               else if op = MINUS then (arith (float_sub F) left right, g2)
               else if op = MUL then (arith (float_mul F) left right, g2)
               else if op = DIV then (truediv F left right, g2)
               else (Inr PyNone, g2)))"
| "visit F (Assign name expr is_decl) globals =
     (case visit F expr globals of
        (Inl e, g1) \<Rightarrow> (Inl e, g1)
      | (Inr val, g1) \<Rightarrow>
          if is_decl \<and> name \<in> dom g1 then (Inl (AlreadyDeclared name), g1)
          else (Inr val, g1(name \<mapsto> val)))"
| "visit F NoneNode globals = (Inr PyNone, globals)"

subsection \<open>One line through the pipeline\<close>

text \<open>
  The body of the \<^verbatim>\<open>try\<close> in \<^verbatim>\<open>run_aether\<close> for one input text that is not a sentinel:
  \<^verbatim>\<open>lex\<close>, \<^verbatim>\<open>parse_statement\<close>, \<^verbatim>\<open>visit\<close>. The result is the value printed or the
  exception caught, and the interpreter's dictionary afterwards. Tokens left unread by
  the parser are ignored.
\<close>

definition run_line :: "'f float_ops \<Rightarrow> string \<Rightarrow> 'f env \<Rightarrow> (error + 'f pyval) \<times> 'f env" where
  "run_line F text globals =
     (case lex text of
        Inl e \<Rightarrow> (Inl e, globals)
      | Inr tokens \<Rightarrow>
          (case parse_statement F tokens of
             Inl e \<Rightarrow> (Inl e, globals)
           | Inr (ast, rest) \<Rightarrow> visit F ast globals))"

subsection \<open>Exact arithmetic\<close>

text \<open>
  Arithmetic on the reals, with the value of a decimal literal: the instance at which
  concrete lines are evaluated. Python's doubles agree with it wherever every literal
  and every intermediate result is a double, as for the small integers below.
\<close>

definition digit_value :: "char \<Rightarrow> nat" where
  "digit_value c = of_char c - 48"

definition digits_value :: "string \<Rightarrow> nat" where
  "digits_value ds = foldl (\<lambda>n c. 10 * n + digit_value c) 0 ds"

definition decimal :: "string \<Rightarrow> real" where
  "decimal s =
     (let whole = takeWhile (\<lambda>c. c \<noteq> CHR ''.'') s;
          frac = drop 1 (dropWhile (\<lambda>c. c \<noteq> CHR ''.'') s)
      in real (digits_value whole) + real (digits_value frac) / 10 ^ length frac)"

definition exact_ops :: "real float_ops" where
  "exact_ops =
     \<lparr>float_of = decimal, float_add = (+), float_sub = (-), float_mul = (*),
      float_div = (/), float_is_zero = (\<lambda>x. x = 0)\<rparr>"

subsection \<open>Notions used in the statements\<close>

text \<open>The names a tree assigns to: those of the \<^verbatim>\<open>Assign\<close> nodes in it.\<close>

fun assigned :: "'f node \<Rightarrow> string set" where
  "assigned (BinOp l op r) = assigned l \<union> assigned r"
| "assigned (Num v) = {}"
| "assigned (Var name) = {}"
| "assigned (Assign name expr is_decl) = insert name (assigned expr)"
| "assigned NoneNode = {}"




text \<open>
  The value of a sequence of tokens read as arithmetic, after the grammar
  \<^verbatim>\<open>expression := term (('+'|'-') term)*\<close>, \<^verbatim>\<open>term := factor (('*'|'/') factor)*\<close>,
  \<^verbatim>\<open>factor := NUMBER | '(' expression ')'\<close>: multiplication and division bind tighter
  than addition and subtraction, each level associates to the left, and a quotient has
  a value only when its divisor is not zero. The arithmetic is that of \<open>F\<close>; for
  \<open>exact_ops\<close> the value is the real number the line denotes.
\<close>

inductive factor_value :: "'f float_ops \<Rightarrow> token list \<Rightarrow> 'f \<Rightarrow> bool"
  and term_value :: "'f float_ops \<Rightarrow> token list \<Rightarrow> 'f \<Rightarrow> bool"
  and expression_value :: "'f float_ops \<Rightarrow> token list \<Rightarrow> 'f \<Rightarrow> bool"
  for F :: "'f float_ops"
where
  number: "token_type t = NUMBER \<Longrightarrow> factor_value F [t] (float_of F (token_value t))"
| parens: "expression_value F ts v \<Longrightarrow> token_type l = LPAREN \<Longrightarrow> token_type r = RPAREN \<Longrightarrow>
     factor_value F (l # ts @ [r]) v"
| of_factor: "factor_value F ts v \<Longrightarrow> term_value F ts v"
| times: "term_value F ts1 a \<Longrightarrow> factor_value F ts2 b \<Longrightarrow> token_type t = MUL \<Longrightarrow>
     term_value F (ts1 @ t # ts2) (float_mul F a b)"
| over: "term_value F ts1 a \<Longrightarrow> factor_value F ts2 b \<Longrightarrow> token_type t = DIV \<Longrightarrow>
     \<not> float_is_zero F b \<Longrightarrow> term_value F (ts1 @ t # ts2) (float_div F a b)"
| of_term: "term_value F ts v \<Longrightarrow> expression_value F ts v"
| plus: "expression_value F ts1 a \<Longrightarrow> term_value F ts2 b \<Longrightarrow> token_type t = PLUS \<Longrightarrow>
     expression_value F (ts1 @ t # ts2) (float_add F a b)"
| minus: "expression_value F ts1 a \<Longrightarrow> term_value F ts2 b \<Longrightarrow> token_type t = MINUS \<Longrightarrow>
     expression_value F (ts1 @ t # ts2) (float_sub F a b)"

text \<open>The unread tokens start with an operator that continues a term.\<close>

definition continues_term :: "token list \<Rightarrow> bool" where
  "continues_term rest = (case rest of [] \<Rightarrow> False | t # ts \<Rightarrow> token_type t \<in> {MUL, DIV})"


section \<open>The lexer\<close>

subsection \<open>The patterns before a separator\<close>

lemma takeWhile_stop: "\<not> P y \<Longrightarrow> takeWhile P (xs @ y # ys) = takeWhile P xs"
  by (induction xs) auto

lemma dropWhile_stop: "\<not> P y \<Longrightarrow> dropWhile P (xs @ y # ys) = dropWhile P xs @ y # ys"
  by (induction xs) auto


lemma ident_pat_stop:
  assumes "\<not> is_ident_char c"
  shows "ident_pat (s @ c # t) = map_option (\<lambda>(v, r). (v, r @ c # t)) (ident_pat s)"
  using assms
  by (cases s) (auto simp: ident_pat_def takeWhile_stop dropWhile_stop is_ident_char_def)

lemma skip_pat_stop:
  assumes "\<not> is_blank c"
  shows "skip_pat (s @ c # t) = map_option (\<lambda>(v, r). (v, r @ c # t)) (skip_pat s)"
  using assms by (simp add: skip_pat_def takeWhile_stop dropWhile_stop)










subsection \<open>The alternation\<close>

text \<open>The alternation, by the first character of the text.\<close>

lemma class_disjoint:
  "is_digit x \<Longrightarrow> \<not> is_ident_start x \<and> \<not> is_blank x \<and> x \<noteq> quote \<and> x \<noteq> newline
      \<and> x \<notin> set '':=+-*/().''"
  "is_ident_start x \<Longrightarrow> \<not> is_blank x \<and> x \<noteq> quote \<and> x \<noteq> newline \<and> x \<notin> set '':=+-*/().''"
  "is_blank x \<Longrightarrow> x \<noteq> quote \<and> x \<noteq> newline \<and> x \<notin> set '':=+-*/().''"
  by (auto simp: is_digit_def is_ident_start_def is_blank_def quote_def newline_def)





subsection \<open>Newlines\<close>












subsection \<open>Illegal characters\<close>

















section \<open>The interpreter\<close>

subsection \<open>Which entries of the dictionary a visit can change\<close>

lemma visit_frame_general:
  "other \<notin> assigned node \<Longrightarrow> snd (visit F node globals) other = globals other"
proof (induction node arbitrary: globals)
  case (BinOp l op r)
  then show ?case
    by (auto split: prod.splits sum.splits) (metis snd_conv)+
next
  case (Assign name expr is_decl)
  then show ?case
    by (auto split: prod.splits sum.splits) (metis snd_conv)+
qed simp_all

lemma visit_pure: "assigned node = {} \<Longrightarrow> snd (visit F node globals) = globals"
  by (rule ext) (simp add: visit_frame_general)

text \<open>
  The parser builds an \<^verbatim>\<open>Assign\<close> only at the root of a statement: expressions hold
  none.
\<close>

lemma parse_assigned:
  "parse_expression F ts = Inr (n, r) \<Longrightarrow> assigned n = {}"
  "expression_loop F node ts = Inr (n, r) \<Longrightarrow> assigned node = {} \<Longrightarrow> assigned n = {}"
  "parse_term F ts = Inr (n, r) \<Longrightarrow> assigned n = {}"
  "term_loop F node ts = Inr (n, r) \<Longrightarrow> assigned node = {} \<Longrightarrow> assigned n = {}"
  "parse_factor F ts = Inr (n, r) \<Longrightarrow> assigned n = {}"
proof (induct F ts and F node ts and F ts and F node ts and F ts
    arbitrary: n r and n r and n r and n r and n r
    rule: parse_expression_expression_loop_parse_term_term_loop_parse_factor.induct)
  case (1 F ts)
  from 1(3) obtain m ts1 where a: "parse_term F ts = Inr (m, ts1)"
    and b: "expression_loop F m ts1 = Inr (n, r)"
    by (auto simp: parse_expression.simps[of F ts] split: sum.splits)
  from 1(2)[OF a refl b] 1(1)[OF a] show ?case by simp
next
  case (2 F node ts)
  show ?case
  proof (cases ts)
    case Nil
    with 2(3,4) show ?thesis by (simp add: expression_loop_Nil)
  next
    case (Cons t rest)
    then have p: "peek ts = Some t" and c: "consume ts None = Inr (Some t, rest)"
      by (simp_all add: peek_def consume_def)
    show ?thesis
    proof (cases "token_type t \<in> {PLUS, MINUS}")
      case False
      with 2(3,4) Cons show ?thesis by (simp add: expression_loop_Cons)
    next
      case True
      from 2(3) Cons True obtain rhs ts2 where a: "parse_term F rest = Inr (rhs, ts2)"
        and b: "expression_loop F (BinOp node (token_type t) rhs) ts2 = Inr (n, r)"
        by (auto simp: expression_loop_Cons split: sum.splits)
      from 2(1)[OF p True c refl refl a] have "assigned rhs = {}" .
      with 2(2)[OF p True c refl refl a refl b] 2(4) show ?thesis by simp
    qed
  qed
next
  case (3 F ts)
  from 3(3) obtain m ts1 where a: "parse_factor F ts = Inr (m, ts1)"
    and b: "term_loop F m ts1 = Inr (n, r)"
    by (auto simp: parse_term.simps[of F ts] split: sum.splits)
  from 3(2)[OF a refl b] 3(1)[OF a] show ?case by simp
next
  case (4 F node ts)
  show ?case
  proof (cases ts)
    case Nil
    with 4(3,4) show ?thesis by (simp add: term_loop_Nil)
  next
    case (Cons t rest)
    then have p: "peek ts = Some t" and c: "consume ts None = Inr (Some t, rest)"
      by (simp_all add: peek_def consume_def)
    show ?thesis
    proof (cases "token_type t \<in> {MUL, DIV}")
      case False
      with 4(3,4) Cons show ?thesis by (simp add: term_loop_Cons)
    next
      case True
      from 4(3) Cons True obtain rhs ts2 where a: "parse_factor F rest = Inr (rhs, ts2)"
        and b: "term_loop F (BinOp node (token_type t) rhs) ts2 = Inr (n, r)"
        by (auto simp: term_loop_Cons split: sum.splits)
      from 4(1)[OF p True c refl refl a] have "assigned rhs = {}" .
      with 4(2)[OF p True c refl refl a refl b] 4(4) show ?thesis by simp
    qed
  qed
next
  case (5 F ts)
  show ?case
  proof (cases ts)
    case Nil
    with 5(2) show ?thesis by (simp add: parse_factor_Nil)
  next
    case (Cons t rest)
    then have c: "consume ts None = Inr (Some t, rest)" by (simp add: consume_def)
    show ?thesis
    proof (cases "token_type t = LPAREN")
      case False
      with 5(2) Cons show ?thesis
        by (auto simp: parse_factor_Cons split: if_splits)
    next
      case True
      from 5(2) Cons True obtain ts2 x where a: "parse_expression F rest = Inr (n, ts2)"
        by (auto simp: parse_factor_Cons split: sum.splits)
      show ?thesis
        by (rule 5(1)[OF c refl refl _ _ True a]) (simp_all add: True)
    qed
  qed
qed

lemma parse_statement_assigned:
  assumes "parse_statement F ts = Inr (n, r)"
  shows "\<exists>name. assigned n \<subseteq> {name}"
proof (cases ts)
  case Nil
  with assms show ?thesis by (simp add: parse_statement_def peek_def)
next
  case (Cons t rest)
  show ?thesis
  proof (cases "token_type t = IDENT")
    case False
    with assms Cons have "parse_expression F ts = Inr (n, r)"
      by (simp add: parse_statement_def peek_def)
    then show ?thesis by (simp add: parse_assigned(1))
  next
    case True
    with assms Cons show ?thesis
      by (auto simp: parse_statement_def peek_def consume_def Let_def parse_assigned(1)
          split: if_splits sum.splits list.splits)
  qed
qed

text \<open>
  C10. A visit changes at most one entry of the dictionary per statement: the visit of
  a tree without assignments (a \<^verbatim>\<open>Num\<close>, a \<^verbatim>\<open>Var\<close>, a \<^verbatim>\<open>BinOp\<close> of such trees) returns
  the dictionary unchanged, whether it succeeds or raises; the visit of an \<^verbatim>\<open>Assign\<close> of
  such an expression leaves the entry of every other name as it was; and whatever the
  line, processing it changes the entry of at most one name.
\<close>

theorem visit_frame:
  "(assigned node = {} \<longrightarrow> snd (visit F node globals) = globals)
   \<and> (assigned expr = {} \<and> other \<noteq> name \<longrightarrow>
        snd (visit F (Assign name expr is_decl) globals) other = globals other)
   \<and> (\<exists>name. \<forall>other. other \<noteq> name \<longrightarrow> snd (run_line F text globals) other = globals other)"
proof -
  have a: "assigned node = {} \<longrightarrow> snd (visit F node globals) = globals"
    by (simp add: visit_pure)
  have b: "assigned expr = {} \<and> other \<noteq> name \<longrightarrow>
        snd (visit F (Assign name expr is_decl) globals) other = globals other"
    using visit_frame_general[of other "Assign name expr is_decl" F globals] by simp
  have c: "\<exists>name. \<forall>other. other \<noteq> name \<longrightarrow> snd (run_line F text globals) other = globals other"
  proof (cases "lex text")
    case (Inl e)
    then show ?thesis by (simp add: run_line_def)
  next
    case (Inr tokens)
    show ?thesis
    proof (cases "parse_statement F tokens")
      case (Inl e)
      with Inr show ?thesis by (simp add: run_line_def)
    next
      case inr: (Inr res)
      obtain ast rest where res: "res = (ast, rest)" by (cases res)
      with inr obtain name where "assigned ast \<subseteq> {name}"
        using parse_statement_assigned by blast
      then have "\<forall>other. other \<noteq> name \<longrightarrow> snd (visit F ast globals) other = globals other"
        using visit_frame_general[of _ ast F globals] by blast
      with Inr inr res show ?thesis by (auto simp: run_line_def)
    qed
  qed
  from a b c show ?thesis by blast
qed

theorem visit_frame_witness:
  "snd (visit exact_ops (BinOp (Var ''x'') PLUS (Num 1)) [''x'' \<mapsto> Float 5]) = [''x'' \<mapsto> Float 5]
   \<and> snd (visit exact_ops (Assign ''y'' (Var ''x'') False) [''x'' \<mapsto> Float 5]) ''x''
       = Some (Float 5)
   \<and> snd (visit exact_ops (Assign ''y'' (Var ''x'') False) [''x'' \<mapsto> Float 5]) ''y''
       = Some (Float 5)"
  using visit_frame[of "BinOp (Var ''x'') PLUS (Num 1)" exact_ops "[''x'' \<mapsto> Float 5]"
      "Var ''x''" "''x''" "''y''" False]
  by (simp add: exact_ops_def)

subsection \<open>Evaluated lines\<close>

text \<open>The tokens and trees of the lines used as examples below.\<close>

lemma lex_x_decl_5:
  "lex ''x := 5'' = Inr [Token IDENT ''x'', Token ASSIGN '':='', Token NUMBER ''5'']"
  by code_simp

lemma lex_x_decl_6:
  "lex ''x := 6'' = Inr [Token IDENT ''x'', Token ASSIGN '':='', Token NUMBER ''6'']"
  by code_simp

lemma lex_z_assign_10:
  "lex ''z = 10'' = Inr [Token IDENT ''z'', Token EQUALS ''='', Token NUMBER ''10'']"
  by code_simp

lemma parse_x_decl_5:
  "parse_statement exact_ops [Token IDENT ''x'', Token ASSIGN '':='', Token NUMBER ''5'']
     = Inr (Assign ''x'' (Num 5) True, [])"
  by code_simp

lemma parse_x_decl_6:
  "parse_statement exact_ops [Token IDENT ''x'', Token ASSIGN '':='', Token NUMBER ''6'']
     = Inr (Assign ''x'' (Num 6) True, [])"
  by code_simp

lemma parse_z_assign_10:
  "parse_statement exact_ops [Token IDENT ''z'', Token EQUALS ''='', Token NUMBER ''10'']
     = Inr (Assign ''z'' (Num 10) False, [])"
  by code_simp

lemma run_x_decl_5:
  "run_line exact_ops ''x := 5'' Map.empty = (Inr (Float 5), [''x'' \<mapsto> Float 5])"
  by (simp add: run_line_def lex_x_decl_5 parse_x_decl_5)

subsection \<open>Declaration\<close>

text \<open>
  C3. Visiting \<^verbatim>\<open>Assign(name, expr, is_decl=True)\<close> first visits \<open>expr\<close>. When that
  returns a value \<open>v\<close>, leaving the dictionary \<open>g1\<close>: if \<open>name\<close> is a key of \<open>g1\<close> the
  visit raises the already-declared \<^verbatim>\<open>NameError\<close> and the dictionary stays \<open>g1\<close>; if it
  is not, \<open>name\<close> is bound to \<open>v\<close> and \<open>v\<close> is returned. For an expression without
  assignments inside (all the parser builds), \<open>g1\<close> is the dictionary before the visit,
  so a failed declaration leaves it unchanged.
\<close>

theorem declaration_semantics:
  assumes "visit F expr globals = (Inr v, g1)"
  shows "(name \<in> dom g1 \<longrightarrow>
            visit F (Assign name expr True) globals = (Inl (AlreadyDeclared name), g1))
       \<and> (name \<notin> dom g1 \<longrightarrow>
            visit F (Assign name expr True) globals = (Inr v, g1(name \<mapsto> v)))
       \<and> (assigned expr = {} \<longrightarrow> g1 = globals)"
  using assms visit_pure[of expr F globals] by auto

text \<open>
  The line \<^verbatim>\<open>x := 5\<close> binds \<open>x\<close> and returns 5; the line \<^verbatim>\<open>x := 6\<close> after it fails and
  leaves \<open>x\<close> at 5.
\<close>

theorem declaration_semantics_witness:
  "run_line exact_ops ''x := 5'' Map.empty = (Inr (Float 5), [''x'' \<mapsto> Float 5])
   \<and> run_line exact_ops ''x := 6'' (snd (run_line exact_ops ''x := 5'' Map.empty))
       = (Inl (AlreadyDeclared ''x''), [''x'' \<mapsto> Float 5])"
proof -
  have five: "visit exact_ops (Num 5) Map.empty = (Inr (Float 5), Map.empty)"
    by simp
  have six: "visit exact_ops (Num 6) [''x'' \<mapsto> Float 5] = (Inr (Float 6), [''x'' \<mapsto> Float 5])"
    by simp
  have first: "visit exact_ops (Assign ''x'' (Num 5) True) Map.empty
      = (Inr (Float 5), [''x'' \<mapsto> Float 5])"
    using declaration_semantics[OF five, of "''x''"] by simp
  have second: "visit exact_ops (Assign ''x'' (Num 6) True) [''x'' \<mapsto> Float 5]
      = (Inl (AlreadyDeclared ''x''), [''x'' \<mapsto> Float 5])"
    using declaration_semantics[OF six, of "''x''"] by simp
  show ?thesis
    using first second
    by (simp add: run_line_def lex_x_decl_5 parse_x_decl_5 lex_x_decl_6 parse_x_decl_6)
qed

subsection \<open>Reassignment\<close>

text \<open>
  C4. Visiting \<^verbatim>\<open>Assign(name, expr, is_decl=False)\<close> visits \<open>expr\<close> and, when that returns
  a value \<open>v\<close>, binds \<open>name\<close> to \<open>v\<close> and returns \<open>v\<close>, whether or not \<open>name\<close> was a key
  of the dictionary: no error depends on the name.
\<close>

theorem reassignment_semantics:
  assumes "visit F expr globals = (Inr v, g1)"
  shows "visit F (Assign name expr False) globals = (Inr v, g1(name \<mapsto> v))"
  using assms by simp

text \<open>The line \<^verbatim>\<open>z = 10\<close> on the empty dictionary returns 10 and creates \<open>z\<close>.\<close>

theorem reassignment_semantics_witness:
  "run_line exact_ops ''z = 10'' Map.empty = (Inr (Float 10), [''z'' \<mapsto> Float 10])"
proof -
  have ten: "visit exact_ops (Num 10) Map.empty = (Inr (Float 10), Map.empty)"
    by simp
  show ?thesis
    using reassignment_semantics[OF ten, of "''z''"]
    by (simp add: run_line_def lex_z_assign_10 parse_z_assign_10)
qed

subsection \<open>Division by zero\<close>

text \<open>
  C8, as stated, fails: the division of 1 by 0 raises at the interpreter, both as a
  tree and as the line \<^verbatim>\<open>1 / 0\<close>.
\<close>

theorem division_by_zero_counterexample:
  "visit exact_ops (BinOp (Num 1) DIV (Num 0)) Map.empty = (Inl ZeroDivisionError, Map.empty)
   \<and> fst (run_line exact_ops ''1 / 0'' Map.empty) = Inl ZeroDivisionError"
proof -
  have "fst (run_line exact_ops ''1 / 0'' Map.empty) = Inl ZeroDivisionError"
    by code_simp
  then show ?thesis by (simp add: exact_ops_def)
qed

text \<open>
  C8, amended. \<^verbatim>\<open>visit\<close> has no guard of its own on the divisor: when both operands of a
  \<^verbatim>\<open>DIV\<close> evaluate to floats and the right one is zero, the host's division raises
  \<^verbatim>\<open>ZeroDivisionError\<close>, which \<^verbatim>\<open>visit\<close> lets through, with the dictionary as the two
  operands left it.
\<close>

theorem division_by_zero_raises:
  assumes "visit F l globals = (Inr (Float a), g1)"
    and "visit F r g1 = (Inr (Float b), g2)"
    and "float_is_zero F b"
  shows "visit F (BinOp l DIV r) globals = (Inl ZeroDivisionError, g2)"
  using assms by simp

theorem division_by_zero_raises_witness:
  "visit exact_ops (BinOp (Num 7) DIV (BinOp (Num 2) MINUS (Num 2))) Map.empty
     = (Inl ZeroDivisionError, Map.empty)"
proof -
  have l: "visit exact_ops (Num 7) Map.empty = (Inr (Float 7), Map.empty)"
    by simp
  have r: "visit exact_ops (BinOp (Num 2) MINUS (Num 2)) Map.empty = (Inr (Float 0), Map.empty)"
    by (simp add: exact_ops_def)
  have z: "float_is_zero exact_ops 0"
    by (simp add: exact_ops_def)
  show ?thesis
    by (rule division_by_zero_raises[OF l r z])
qed

section \<open>The parser\<close>

subsection \<open>A statement that starts with an identifier\<close>

text \<open>
  When the token after a leading identifier is neither \<^verbatim>\<open>:=\<close> nor \<^verbatim>\<open>=\<close>, the statement
  is parsed as the expression that starts after the identifier: the identifier has
  been consumed and its position is not restored.
\<close>

lemma parse_statement_drops_identifier:
  assumes "token_type t = IDENT"
    and "rest = [] \<or> token_type (hd rest) \<notin> {ASSIGN, EQUALS}"
  shows "parse_statement F (t # rest) = parse_expression F rest"
  using assms
  by (cases rest) (auto simp: parse_statement_def peek_def consume_def Let_def)

text \<open>
  C1 does not hold of the code. After \<^verbatim>\<open>x := 5\<close> and \<^verbatim>\<open>x = x + 1\<close> the line \<^verbatim>\<open>x\<close> raises
  (\<^verbatim>\<open>parse_factor\<close> reads \<^verbatim>\<open>.type\<close> of \<^verbatim>\<open>None\<close>) instead of returning 6, and the tokens of
  \<^verbatim>\<open>x + 1\<close> parse to \<^verbatim>\<open>None\<close> with the \<^verbatim>\<open>1\<close> left unread: the identifier is lost.
\<close>

theorem identifier_statement_loses_identifier:
  "fst (run_line exact_ops ''x''
         (snd (run_line exact_ops ''x = x + 1''
           (snd (run_line exact_ops ''x := 5'' Map.empty))))) = Inl AttributeError
   \<and> fst (run_line exact_ops ''x = x + 1''
           (snd (run_line exact_ops ''x := 5'' Map.empty))) = Inr (Float 6)
   \<and> parse_statement exact_ops [Token IDENT ''x'', Token PLUS ''+'', Token NUMBER ''1'']
       = Inr (NoneNode, [Token NUMBER ''1''])"
  by code_simp

subsection \<open>A parenthesis that is never closed\<close>

text \<open>At the end of the tokens \<^verbatim>\<open>consume('RPAREN')\<close> returns \<^verbatim>\<open>None\<close> and raises nothing.\<close>

lemma consume_exhausted: "consume [] expected_type = Inr (None, [])"
  by (simp add: consume_def)

lemma parse_factor_unclosed:
  assumes "token_type t = LPAREN" and "parse_expression F ts = Inr (node, [])"
  shows "parse_factor F (t # ts) = Inr (node, [])"
  using assms by (simp add: parse_factor_Cons consume_exhausted)

lemma lex_unclosed:
  "lex ''(1 + 2'' = Inr [Token LPAREN ''('', Token NUMBER ''1'', Token PLUS ''+'', Token NUMBER ''2'']"
  by code_simp

lemma parse_unclosed:
  "parse_statement exact_ops
     [Token LPAREN ''('', Token NUMBER ''1'', Token PLUS ''+'', Token NUMBER ''2'']
   = Inr (BinOp (Num 1) PLUS (Num 2), [])"
  by code_simp

text \<open>
  C5 does not hold of the code: the line \<^verbatim>\<open>(1 + 2\<close> raises nothing and evaluates to 3.
\<close>

theorem unclosed_parenthesis_accepted:
  "run_line exact_ops ''(1 + 2'' Map.empty = (Inr (Float 3), Map.empty)"
proof -
  have "visit exact_ops (BinOp (Num 1) PLUS (Num 2)) Map.empty = (Inr (Float 3), Map.empty)"
    by (simp add: exact_ops_def)
  then show ?thesis
    by (simp add: run_line_def lex_unclosed parse_unclosed)
qed

subsection \<open>A factor that starts with an unexpected token\<close>

lemma parse_factor_unexpected:
  assumes "token_type t \<notin> {NUMBER, IDENT, LPAREN}"
  shows "parse_factor F (t # ts) = Inr (NoneNode, ts)"
  using assms by (simp add: parse_factor_Cons)

text \<open>
  C6 does not hold of the code: on a token that is no \<^verbatim>\<open>NUMBER\<close>, \<^verbatim>\<open>IDENT\<close> or
  \<^verbatim>\<open>LPAREN\<close>, \<^verbatim>\<open>parse_factor\<close> consumes it and returns \<^verbatim>\<open>None\<close> as the node, so the line
  \<^verbatim>\<open>+ 1\<close> evaluates to \<^verbatim>\<open>None\<close>; at the end of the tokens it raises \<^verbatim>\<open>AttributeError\<close>, not
  the parser's \<^verbatim>\<open>SyntaxError\<close>.
\<close>

theorem factor_accepts_unexpected_token:
  "parse_factor exact_ops [Token PLUS ''+'', Token NUMBER ''1'']
     = Inr (NoneNode, [Token NUMBER ''1''])
   \<and> parse_factor exact_ops [Token RPAREN '')''] = Inr (NoneNode, [])
   \<and> parse_factor exact_ops [] = Inl AttributeError
   \<and> fst (run_line exact_ops ''+ 1'' Map.empty) = Inr PyNone"
  by code_simp

section \<open>Arithmetic lines through the pipeline\<close>

text \<open>
  Tokens that have a value are parsed to a tree whose visit returns that value, and
  the parser stops after them.
\<close>

lemma term_loop_stops: "\<not> continues_term rest \<Longrightarrow> term_loop F n rest = Inr (n, rest)"
  by (cases rest) (simp_all add: continues_term_def term_loop_Nil term_loop_Cons)

lemma value_parsed:
  "factor_value F ts v \<Longrightarrow>
     \<exists>n. (\<forall>rest. parse_factor F (ts @ rest) = Inr (n, rest))
        \<and> (\<forall>g. visit F n g = (Inr (Float v), g))"
  "term_value F ts v \<Longrightarrow>
     \<exists>n. (\<forall>rest. parse_term F (ts @ rest) = term_loop F n rest)
        \<and> (\<forall>g. visit F n g = (Inr (Float v), g))"
  "expression_value F ts v \<Longrightarrow>
     \<exists>n. (\<forall>rest. \<not> continues_term rest \<longrightarrow>
              parse_expression F (ts @ rest) = expression_loop F n rest)
        \<and> (\<forall>g. visit F n g = (Inr (Float v), g))"
proof (induction rule: factor_value_term_value_expression_value.inducts)
  case (number t)
  then show ?case by (simp add: parse_factor_Cons)
next
  case (parens ts v l r)
  then obtain n where n: "\<And>rest. \<not> continues_term rest \<Longrightarrow>
      parse_expression F (ts @ rest) = expression_loop F n rest"
    and v: "\<And>g. visit F n g = (Inr (Float v), g)"
    by blast
  have "parse_factor F ((l # ts @ [r]) @ rest) = Inr (n, rest)" for rest
  proof -
    have "\<not> continues_term (r # rest)"
      using parens by (simp add: continues_term_def)
    then have "parse_expression F (ts @ r # rest) = Inr (n, r # rest)"
      using n[of "r # rest"] parens by (simp add: expression_loop_Cons)
    then show ?thesis
      using parens by (simp add: parse_factor_Cons consume_def)
  qed
  with v show ?case by blast
next
  case (of_factor ts v)
  then obtain n where n: "\<And>rest. parse_factor F (ts @ rest) = Inr (n, rest)"
    and v: "\<And>g. visit F n g = (Inr (Float v), g)"
    by blast
  have "parse_term F (ts @ rest) = term_loop F n rest" for rest
    by (simp add: parse_term.simps[of F "ts @ rest"] n)
  with v show ?case by blast
next
  case (times ts1 a ts2 b t)
  then obtain n1 n2 where n1: "\<And>rest. parse_term F (ts1 @ rest) = term_loop F n1 rest"
    and v1: "\<And>g. visit F n1 g = (Inr (Float a), g)"
    and n2: "\<And>rest. parse_factor F (ts2 @ rest) = Inr (n2, rest)"
    and v2: "\<And>g. visit F n2 g = (Inr (Float b), g)"
    by blast
  have "parse_term F ((ts1 @ t # ts2) @ rest) = term_loop F (BinOp n1 (token_type t) n2) rest"
    for rest
    using n1[of "t # ts2 @ rest"] n2[of rest] times by (simp add: term_loop_Cons)
  moreover have "visit F (BinOp n1 (token_type t) n2) g = (Inr (Float (float_mul F a b)), g)" for g
    using v1 v2 times by simp
  ultimately show ?case by blast
next
  case (over ts1 a ts2 b t)
  then obtain n1 n2 where n1: "\<And>rest. parse_term F (ts1 @ rest) = term_loop F n1 rest"
    and v1: "\<And>g. visit F n1 g = (Inr (Float a), g)"
    and n2: "\<And>rest. parse_factor F (ts2 @ rest) = Inr (n2, rest)"
    and v2: "\<And>g. visit F n2 g = (Inr (Float b), g)"
    by blast
  have "parse_term F ((ts1 @ t # ts2) @ rest) = term_loop F (BinOp n1 (token_type t) n2) rest"
    for rest
    using n1[of "t # ts2 @ rest"] n2[of rest] over by (simp add: term_loop_Cons)
  moreover have "visit F (BinOp n1 (token_type t) n2) g = (Inr (Float (float_div F a b)), g)" for g
    using v1 v2 over by simp
  ultimately show ?case by blast
next
  case (of_term ts v)
  then obtain n where n: "\<And>rest. parse_term F (ts @ rest) = term_loop F n rest"
    and v: "\<And>g. visit F n g = (Inr (Float v), g)"
    by blast
  have "parse_expression F (ts @ rest) = expression_loop F n rest"
    if "\<not> continues_term rest" for rest
    using that by (simp add: parse_expression.simps[of F "ts @ rest"] n term_loop_stops)
  with v show ?case by blast
next
  case (plus ts1 a ts2 b t)
  then obtain n1 n2 where
    n1: "\<And>rest. \<not> continues_term rest \<Longrightarrow>
      parse_expression F (ts1 @ rest) = expression_loop F n1 rest"
    and v1: "\<And>g. visit F n1 g = (Inr (Float a), g)"
    and n2: "\<And>rest. parse_term F (ts2 @ rest) = term_loop F n2 rest"
    and v2: "\<And>g. visit F n2 g = (Inr (Float b), g)"
    by blast
  have "parse_expression F ((ts1 @ t # ts2) @ rest)
      = expression_loop F (BinOp n1 (token_type t) n2) rest"
    if "\<not> continues_term rest" for rest
  proof -
    have "\<not> continues_term (t # ts2 @ rest)"
      using plus by (simp add: continues_term_def)
    then show ?thesis
      using n1[of "t # ts2 @ rest"] n2[of rest] plus that
      by (simp add: expression_loop_Cons term_loop_stops)
  qed
  moreover have "visit F (BinOp n1 (token_type t) n2) g = (Inr (Float (float_add F a b)), g)" for g
    using v1 v2 plus by simp
  ultimately show ?case by blast
next
  case (minus ts1 a ts2 b t)
  then obtain n1 n2 where
    n1: "\<And>rest. \<not> continues_term rest \<Longrightarrow>
      parse_expression F (ts1 @ rest) = expression_loop F n1 rest"
    and v1: "\<And>g. visit F n1 g = (Inr (Float a), g)"
    and n2: "\<And>rest. parse_term F (ts2 @ rest) = term_loop F n2 rest"
    and v2: "\<And>g. visit F n2 g = (Inr (Float b), g)"
    by blast
  have "parse_expression F ((ts1 @ t # ts2) @ rest)
      = expression_loop F (BinOp n1 (token_type t) n2) rest"
    if "\<not> continues_term rest" for rest
  proof -
    have "\<not> continues_term (t # ts2 @ rest)"
      using minus by (simp add: continues_term_def)
    then show ?thesis
      using n1[of "t # ts2 @ rest"] n2[of rest] minus that
      by (simp add: expression_loop_Cons term_loop_stops)
  qed
  moreover have "visit F (BinOp n1 (token_type t) n2) g = (Inr (Float (float_sub F a b)), g)" for g
    using v1 v2 minus by simp
  ultimately show ?case by blast
qed

lemma value_first_token:
  "factor_value F ts v \<Longrightarrow> ts \<noteq> [] \<and> token_type (hd ts) \<in> {NUMBER, LPAREN}"
  "term_value F ts v \<Longrightarrow> ts \<noteq> [] \<and> token_type (hd ts) \<in> {NUMBER, LPAREN}"
  "expression_value F ts v \<Longrightarrow> ts \<noteq> [] \<and> token_type (hd ts) \<in> {NUMBER, LPAREN}"
  by (induction rule: factor_value_term_value_expression_value.inducts) auto

text \<open>
  C2. For every line whose tokens are an arithmetic expression of number literals,
  the four operators and parentheses, and every value \<open>v\<close> the expression has under
  the standard precedence and left associativity, \<^verbatim>\<open>lex\<close>, \<^verbatim>\<open>parse_statement\<close> and
  \<^verbatim>\<open>visit\<close> return \<open>v\<close> and leave the dictionary as it was.
\<close>

theorem arithmetic_line_value:
  assumes "lex text = Inr ts" and "expression_value F ts v"
  shows "run_line F text globals = (Inr (Float v), globals)"
proof -
  from value_parsed(3)[OF assms(2)] obtain n where
    n: "\<And>rest. \<not> continues_term rest \<Longrightarrow>
      parse_expression F (ts @ rest) = expression_loop F n rest"
    and v: "\<And>g. visit F n g = (Inr (Float v), g)"
    by blast
  from n[of "[]"] have pe: "parse_expression F ts = Inr (n, [])"
    by (simp add: continues_term_def expression_loop_Nil)
  from value_first_token(3)[OF assms(2)] obtain t rest where ts: "ts = t # rest"
    and t: "token_type t \<noteq> IDENT"
    by (cases ts) auto
  then have "parse_statement F ts = parse_expression F ts"
    by (simp add: parse_statement_def peek_def)
  with pe v assms(1) show ?thesis
    by (simp add: run_line_def)
qed


text \<open>The lines \<^verbatim>\<open>2 + 3 * 4\<close> and \<^verbatim>\<open>(2 + 3) * 4\<close> evaluate to 14 and 20.\<close>

lemma float_of_exact:
  "float_of exact_ops ''2'' = 2" "float_of exact_ops ''3'' = 3" "float_of exact_ops ''4'' = 4"
  by (simp_all add: exact_ops_def decimal_def digits_value_def digit_value_def)

lemma exact_fields:
  "float_add exact_ops = (+)" "float_mul exact_ops = (*)"
  by (simp_all add: exact_ops_def)

lemma lex_sum_product:
  "lex ''2 + 3 * 4''
     = Inr [Token NUMBER ''2'', Token PLUS ''+'', Token NUMBER ''3'', Token MUL ''*'',
            Token NUMBER ''4'']"
  by code_simp

lemma lex_parenthesized:
  "lex ''(2 + 3) * 4''
     = Inr [Token LPAREN ''('', Token NUMBER ''2'', Token PLUS ''+'', Token NUMBER ''3'',
            Token RPAREN '')'', Token MUL ''*'', Token NUMBER ''4'']"
  by code_simp

lemma literal_values:
  "factor_value exact_ops [Token NUMBER ''2''] 2"
  "factor_value exact_ops [Token NUMBER ''3''] 3"
  "factor_value exact_ops [Token NUMBER ''4''] 4"
  using number[of "Token NUMBER ''2''" exact_ops] number[of "Token NUMBER ''3''" exact_ops]
    number[of "Token NUMBER ''4''" exact_ops]
  by (simp_all add: float_of_exact)

lemma value_sum_product:
  "expression_value exact_ops
     [Token NUMBER ''2'', Token PLUS ''+'', Token NUMBER ''3'', Token MUL ''*'',
      Token NUMBER ''4''] 14"
proof -
  have "term_value exact_ops ([Token NUMBER ''3''] @ Token MUL ''*'' # [Token NUMBER ''4''])
      (float_mul exact_ops 3 4)"
    by (rule times[OF of_factor[OF literal_values(2)] literal_values(3)]) simp
  then have "expression_value exact_ops
      ([Token NUMBER ''2''] @ Token PLUS ''+''
         # ([Token NUMBER ''3''] @ Token MUL ''*'' # [Token NUMBER ''4'']))
      (float_add exact_ops 2 (float_mul exact_ops 3 4))"
    by (rule plus[OF of_term[OF of_factor[OF literal_values(1)]]]) simp
  then show ?thesis by (simp add: exact_fields)
qed

lemma value_parenthesized:
  "expression_value exact_ops
     [Token LPAREN ''('', Token NUMBER ''2'', Token PLUS ''+'', Token NUMBER ''3'',
      Token RPAREN '')'', Token MUL ''*'', Token NUMBER ''4''] 20"
proof -
  have "expression_value exact_ops
      ([Token NUMBER ''2''] @ Token PLUS ''+'' # [Token NUMBER ''3''])
      (float_add exact_ops 2 3)"
    by (rule plus[OF of_term[OF of_factor[OF literal_values(1)]]
          of_factor[OF literal_values(2)]]) simp
  then have "factor_value exact_ops
      (Token LPAREN ''('' # ([Token NUMBER ''2''] @ Token PLUS ''+'' # [Token NUMBER ''3''])
         @ [Token RPAREN '')'']) (float_add exact_ops 2 3)"
    by (rule parens) simp_all
  then have "term_value exact_ops
      ((Token LPAREN ''('' # ([Token NUMBER ''2''] @ Token PLUS ''+'' # [Token NUMBER ''3''])
         @ [Token RPAREN '')'']) @ Token MUL ''*'' # [Token NUMBER ''4''])
      (float_mul exact_ops (float_add exact_ops 2 3) 4)"
    by (rule times[OF of_factor literal_values(3)]) simp
  then have "expression_value exact_ops
      ((Token LPAREN ''('' # ([Token NUMBER ''2''] @ Token PLUS ''+'' # [Token NUMBER ''3''])
         @ [Token RPAREN '')'']) @ Token MUL ''*'' # [Token NUMBER ''4''])
      (float_mul exact_ops (float_add exact_ops 2 3) 4)"
    by (rule of_term)
  then show ?thesis by (simp add: exact_fields)
qed

theorem arithmetic_line_value_witness:
  "run_line exact_ops ''2 + 3 * 4'' Map.empty = (Inr (Float 14), Map.empty)
   \<and> run_line exact_ops ''(2 + 3) * 4'' Map.empty = (Inr (Float 20), Map.empty)"
  using arithmetic_line_value[OF lex_sum_product value_sum_product, of Map.empty]
    arithmetic_line_value[OF lex_parenthesized value_parenthesized, of Map.empty]
  by simp

end
